theory Spec2Isabelle
  imports Complex_Main "HOL-Library.Word"
begin

unbundle bit_operations_syntax

section \<open>Go values\<close>

text \<open>
  The package is written for a 64-bit Go: its own example builds a table of
  \<open>110*1000*1000*1000\<close> rows. A Go \<open>int\<close> is modelled as an \<open>int\<close> of HOL
  together with the wrap-around of 64-bit two's complement arithmetic, written
  out in \<open>i64\<close>; \<open>is_int\<close> says that a HOL integer is a value of the Go type.
  The fields \<open>uint64\<close>, \<open>uint16\<close> and the bytes of the buffer are words.
\<close>

type_synonym byte = "8 word"

definition is_int :: "int \<Rightarrow> bool" where
  "is_int x = (- (2 ^ 63) \<le> x \<and> x < 2 ^ 63)"

definition i64 :: "int \<Rightarrow> int" where
  "i64 x = (x + 2 ^ 63) mod 2 ^ 64 - 2 ^ 63"

text \<open>Go's \<open>/\<close> and \<open>%\<close> on integers truncate towards zero; the remainder has
  the sign of the dividend. The package only ever divides by the constant 8.\<close>

definition quo :: "int \<Rightarrow> int \<Rightarrow> int" where
  "quo x y = sgn x * sgn y * (\<bar>x\<bar> div \<bar>y\<bar>)"

definition rem :: "int \<Rightarrow> int \<Rightarrow> int" where
  "rem x y = sgn x * (\<bar>x\<bar> mod \<bar>y\<bar>)"

text \<open>The two run-time panics the package can raise stand beside the errors
  it declares: an index out of range, and \<open>make\<close> with a length out of range.\<close>

datatype error =
    ErrIllegalIndex
  | ErrIllegalWidth
  | IndexOutOfRange
  | LenOutOfRange

text \<open>Indexing an array or a slice, \<open>xs[i]\<close>.\<close>

definition index :: "'a list \<Rightarrow> int \<Rightarrow> error + 'a" where
  "index xs i =
     (if 0 \<le> i \<and> i < int (length xs) then Inr (xs ! nat i) else Inl IndexOutOfRange)"

text \<open>
  \<open>make([]byte, n)\<close> panics with "len out of range" when \<open>n\<close> is negative or
  above \<open>maxAlloc\<close>, the allocation limit of the 64-bit runtime (\<open>2 ^ 48\<close>
  bytes). Below the limit the allocation is taken to succeed: running out of
  memory is a fatal error of the runtime and is not modelled. The built-in
  \<open>copy(dst, src)\<close> copies as many bytes as the shorter slice holds.
\<close>

definition maxAlloc :: int where
  "maxAlloc = 2 ^ 48"

definition make_bytes :: "int \<Rightarrow> error + byte list" where
  "make_bytes n =
     (if n < 0 \<or> n > maxAlloc then Inl LenOutOfRange else Inr (replicate (nat n) 0))"

definition copy :: "byte list \<Rightarrow> byte list \<Rightarrow> byte list" where
  "copy dst src = take (length dst) src @ drop (length src) dst"

section \<open>Bits of a byte\<close>

definition tA :: "byte list" where
  "tA = [1, 2, 4, 8, 16, 32, 64, 128]"

definition tB :: "byte list" where
  "tB = [254, 253, 251, 247, 239, 223, 191, 127]"

definition setBit :: "byte \<Rightarrow> int \<Rightarrow> bool \<Rightarrow> error + byte" where
  "setBit x k v =
     (if v then (case index tA k of Inl e \<Rightarrow> Inl e | Inr m \<Rightarrow> Inr (x OR m))
      else (case index tB k of Inl e \<Rightarrow> Inl e | Inr m \<Rightarrow> Inr (x AND m)))"

definition getBit :: "byte \<Rightarrow> int \<Rightarrow> error + bool" where
  "getBit x k = (case index tA k of Inl e \<Rightarrow> Inl e | Inr m \<Rightarrow> Inr (x AND m \<noteq> 0))"

definition calculateSize :: "int \<Rightarrow> int \<Rightarrow> int" where
  "calculateSize rs cs =
     (let size = quo (i64 (rs * cs)) 8
      in if rem (i64 (rs * cs)) 8 \<noteq> 0 then i64 (size + 1) else size)"

section \<open>The table\<close>

text \<open>
  A slice is a reference: the heap is the list of the byte arrays allocated so
  far, and a slice is the position of its array in it. Every slice of the
  package spans a whole array, and Go never leaves a slice without its array:
  \<open>h ! bitmap t\<close> is read on heaps that hold the table's array.

  \<open>New\<close> returns the table of \<open>newNTS\<close> and \<open>NewTS\<close> the one of \<open>newTS\<close>,
  each behind the interface \<open>Bitmaptable\<close>. \<open>newNTS\<close> converts \<open>rows\<close> to
  \<open>uint64\<close> and \<open>columns\<close> to \<open>uint16\<close>, and sizes the buffer from the two
  \<open>int\<close> arguments; \<open>Rows\<close> and \<open>Columns\<close> convert the fields back to \<open>int\<close>.
  In \<open>Data\<close> the length given to \<open>make\<close> is the length of a slice, which is
  never negative: that allocation has no failing branch.
\<close>

type_synonym heap = "byte list list"

record bitmaptable =
  rows :: "64 word"
  columns :: "16 word"
  bitmap :: nat

definition alloc :: "heap \<Rightarrow> byte list \<Rightarrow> heap \<times> nat" where
  "alloc h xs = (h @ [xs], length h)"

definition newNTS :: "heap \<Rightarrow> int \<Rightarrow> int \<Rightarrow> error + heap \<times> bitmaptable" where
  "newNTS h rs cs =
     (case make_bytes (calculateSize rs cs) of
        Inl e \<Rightarrow> Inl e
      | Inr xs \<Rightarrow>
          (let (h', a) = alloc h xs
           in Inr (h', \<lparr>rows = word_of_int rs, columns = word_of_int cs, bitmap = a\<rparr>)))"

definition Rows :: "bitmaptable \<Rightarrow> int" where
  "Rows t = sint (rows t)"

definition Columns :: "bitmaptable \<Rightarrow> int" where
  "Columns t = uint (columns t)"

definition getPos :: "bitmaptable \<Rightarrow> int \<Rightarrow> int \<Rightarrow> int \<times> int" where
  "getPos t row column =
     (let pos = i64 (i64 (row * uint (columns t)) + column)
      in (quo pos 8, rem pos 8))"

definition Data :: "heap \<Rightarrow> bitmaptable \<Rightarrow> bool \<Rightarrow> heap \<times> nat" where
  "Data h t c =
     (if \<not> c then (h, bitmap t)
      else alloc h (copy (replicate (length (h ! bitmap t)) 0) (h ! bitmap t)))"

definition Get :: "heap \<Rightarrow> bitmaptable \<Rightarrow> int \<Rightarrow> int \<Rightarrow> error + bool" where
  "Get h t row column =
     (if column \<ge> uint (columns t) \<or> row \<ge> sint (rows t) then Inl ErrIllegalIndex
      else (let (i, k) = getPos t row column
            in case index (h ! bitmap t) i of
                 Inl e \<Rightarrow> Inl e
               | Inr x \<Rightarrow> getBit x k))"

definition Set :: "heap \<Rightarrow> bitmaptable \<Rightarrow> int \<Rightarrow> int \<Rightarrow> bool \<Rightarrow> error + heap" where
  "Set h t row column v =
     (if column \<ge> uint (columns t) \<or> row \<ge> sint (rows t) then Inl ErrIllegalIndex
      else (let (i, k) = getPos t row column
            in case index (h ! bitmap t) i of
                 Inl e \<Rightarrow> Inl e
               | Inr x \<Rightarrow>
                   (case setBit x k v of
                      Inl e \<Rightarrow> Inl e
                    | Inr y \<Rightarrow> Inr (h[bitmap t := (h ! bitmap t)[nat i := y]]))))"

text \<open>A caller writing through a slice it holds, \<open>data[i] = x\<close>.\<close>

definition store :: "heap \<Rightarrow> nat \<Rightarrow> int \<Rightarrow> byte \<Rightarrow> error + heap" where
  "store h a i x =
     (if 0 \<le> i \<and> i < int (length (h ! a)) then Inr (h[a := (h ! a)[nat i := x]])
      else Inl IndexOutOfRange)"

section \<open>The thread-safe table\<close>

text \<open>
  A mutex is a flag in the list of the mutexes created so far. The calls of a
  run are made one after the other by a single goroutine, so \<open>Lock\<close> on a
  mutex that is held never returns: its result is \<open>None\<close>. \<open>Unlock\<close> is only
  ever called on the mutex the same method has just locked. The methods do not
  defer the unlocking: a panic inside \<open>Set\<close> leaves the mutex held.
\<close>

type_synonym mutexes = "bool list"

record ts =
  mu :: nat
  b :: bitmaptable

definition Lock :: "mutexes \<Rightarrow> nat \<Rightarrow> mutexes option" where
  "Lock ms m = (if ms ! m then None else Some (ms[m := True]))"

definition Unlock :: "mutexes \<Rightarrow> nat \<Rightarrow> mutexes" where
  "Unlock ms m = ms[m := False]"

definition panics :: "error \<Rightarrow> bool" where
  "panics e = (e = IndexOutOfRange \<or> e = LenOutOfRange)"

definition newTS :: "heap \<Rightarrow> mutexes \<Rightarrow> int \<Rightarrow> int \<Rightarrow> error + heap \<times> mutexes \<times> ts" where
  "newTS h ms rs cs =
     (let m = length ms; ms' = ms @ [False]
      in case newNTS h rs cs of
           Inl e \<Rightarrow> Inl e
         | Inr (h', t) \<Rightarrow> Inr (h', ms', \<lparr>mu = m, b = t\<rparr>))"

definition ts_Rows :: "ts \<Rightarrow> int" where
  "ts_Rows t = Rows (b t)"

definition ts_Columns :: "ts \<Rightarrow> int" where
  "ts_Columns t = Columns (b t)"

definition ts_Data :: "heap \<Rightarrow> mutexes \<Rightarrow> ts \<Rightarrow> bool \<Rightarrow> ((heap \<times> nat) \<times> mutexes) option" where
  "ts_Data h ms t c =
     (case Lock ms (mu t) of
        None \<Rightarrow> None
      | Some ms1 \<Rightarrow> (let data = Data h (b t) c in Some (data, Unlock ms1 (mu t))))"

definition ts_Get :: "heap \<Rightarrow> ts \<Rightarrow> int \<Rightarrow> int \<Rightarrow> error + bool" where
  "ts_Get h t row column = Get h (b t) row column"

definition ts_Set ::
  "heap \<Rightarrow> mutexes \<Rightarrow> ts \<Rightarrow> int \<Rightarrow> int \<Rightarrow> bool \<Rightarrow> ((error + heap) \<times> mutexes) option" where
  "ts_Set h ms t row column v =
     (case Lock ms (mu t) of
        None \<Rightarrow> None
      | Some ms1 \<Rightarrow>
          (case Set h (b t) row column v of
             Inl e \<Rightarrow> if panics e then Some (Inl e, ms1) else Some (Inl e, Unlock ms1 (mu t))
           | Inr h' \<Rightarrow> Some (Inr h', Unlock ms1 (mu t))))"

section \<open>Sequential runs through the interface\<close>

text \<open>
  The five methods of the interface \<open>Bitmaptable\<close>, what a call of one
  returns, and a run of calls on each of the two implementations, made one
  after the other by a caller that recovers from a panic and goes on. A run on
  the thread-safe table that blocks on the mutex is \<open>None\<close>. \<open>holds_lock\<close>
  says that a call is a \<open>Set\<close> that panics, and \<open>calm\<close> that no call of a run
  is one.
\<close>

datatype call =
    Call_Rows
  | Call_Columns
  | Call_Get int int
  | Call_Set int int bool
  | Call_Data bool

datatype reply =
    Int_reply int
  | Bool_reply bool
  | Nil_reply
  | Slice_reply nat
  | Error_reply error

fun call_nts :: "heap \<Rightarrow> bitmaptable \<Rightarrow> call \<Rightarrow> reply \<times> heap" where
  "call_nts h t Call_Rows = (Int_reply (Rows t), h)"
| "call_nts h t Call_Columns = (Int_reply (Columns t), h)"
| "call_nts h t (Call_Get row column) =
     (case Get h t row column of
        Inl e \<Rightarrow> (Error_reply e, h)
      | Inr x \<Rightarrow> (Bool_reply x, h))"
| "call_nts h t (Call_Set row column v) =
     (case Set h t row column v of
        Inl e \<Rightarrow> (Error_reply e, h)
      | Inr h' \<Rightarrow> (Nil_reply, h'))"
| "call_nts h t (Call_Data c) = (let (h', d) = Data h t c in (Slice_reply d, h'))"

fun run_nts :: "heap \<Rightarrow> bitmaptable \<Rightarrow> call list \<Rightarrow> reply list \<times> heap" where
  "run_nts h t [] = ([], h)"
| "run_nts h t (c # cs) =
     (let (r, h1) = call_nts h t c; (rs, h2) = run_nts h1 t cs
      in (r # rs, h2))"

fun holds_lock :: "heap \<Rightarrow> bitmaptable \<Rightarrow> call \<Rightarrow> bool" where
  "holds_lock h t (Call_Set row column v) =
     (case Set h t row column v of Inl e \<Rightarrow> panics e | Inr h' \<Rightarrow> False)"
| "holds_lock h t c = False"

fun calm :: "heap \<Rightarrow> bitmaptable \<Rightarrow> call list \<Rightarrow> bool" where
  "calm h t [] = True"
| "calm h t (c # cs) = (\<not> holds_lock h t c \<and> calm (snd (call_nts h t c)) t cs)"

fun call_ts :: "heap \<Rightarrow> mutexes \<Rightarrow> ts \<Rightarrow> call \<Rightarrow> (reply \<times> heap \<times> mutexes) option" where
  "call_ts h ms t Call_Rows = Some (Int_reply (ts_Rows t), h, ms)"
| "call_ts h ms t Call_Columns = Some (Int_reply (ts_Columns t), h, ms)"
| "call_ts h ms t (Call_Get row column) =
     (case ts_Get h t row column of
        Inl e \<Rightarrow> Some (Error_reply e, h, ms)
      | Inr x \<Rightarrow> Some (Bool_reply x, h, ms))"
| "call_ts h ms t (Call_Set row column v) =
     (case ts_Set h ms t row column v of
        None \<Rightarrow> None
      | Some (Inl e, ms') \<Rightarrow> Some (Error_reply e, h, ms')
      | Some (Inr h', ms') \<Rightarrow> Some (Nil_reply, h', ms'))"
| "call_ts h ms t (Call_Data c) =
     (case ts_Data h ms t c of
        None \<Rightarrow> None
      | Some ((h', d), ms') \<Rightarrow> Some (Slice_reply d, h', ms'))"

fun run_ts :: "heap \<Rightarrow> mutexes \<Rightarrow> ts \<Rightarrow> call list \<Rightarrow> (reply list \<times> heap \<times> mutexes) option" where
  "run_ts h ms t [] = Some ([], h, ms)"
| "run_ts h ms t (c # cs) =
     (case call_ts h ms t c of
        None \<Rightarrow> None
      | Some (r, h1, ms1) \<Rightarrow>
          (case run_ts h1 ms1 t cs of
             None \<Rightarrow> None
           | Some (rs, h2, ms2) \<Rightarrow> Some (r # rs, h2, ms2)))"

section \<open>The package bitmap\<close>

text \<open>
  The flat bitmap of the same repository, addressed by identifier and
  position. Its struct has the fields \<open>i\<close>, \<open>w\<close> and \<open>a\<close>, here \<open>bm_i\<close>, \<open>bm_w\<close>
  and \<open>bm_a\<close>; \<open>setBit\<close>, \<open>getBit\<close>, \<open>tA\<close> and \<open>tB\<close> are the same in both
  packages. Its bounds check is \<open>pos >= s.w || id > s.i\<close>.
\<close>

record bitmap_struct =
  bm_i :: int
  bm_w :: int
  bm_a :: nat

definition bitmap_New :: "heap \<Rightarrow> int \<Rightarrow> int \<Rightarrow> error + heap \<times> bitmap_struct" where
  "bitmap_New h n width =
     (let as = i64 (n * width);
          rest = rem as 8;
          as = quo as 8;
          as = (if rest \<noteq> 0 then i64 (as + 1) else as)
      in case make_bytes as of
           Inl e \<Rightarrow> Inl e
         | Inr xs \<Rightarrow>
             (let (h', p) = alloc h xs
              in Inr (h', \<lparr>bm_i = n, bm_w = width, bm_a = p\<rparr>)))"

definition bitmap_Set ::
  "heap \<Rightarrow> bitmap_struct \<Rightarrow> int \<Rightarrow> int \<Rightarrow> bool \<Rightarrow> error + heap" where
  "bitmap_Set h s ident pos v =
     (if pos \<ge> bm_w s \<or> ident > bm_i s then Inl ErrIllegalIndex
      else (let l = i64 (i64 (ident * bm_w s) + pos); k = quo l 8
            in case index (h ! bm_a s) k of
                 Inl e \<Rightarrow> Inl e
               | Inr data \<Rightarrow>
                   (case setBit data (rem l 8) v of
                      Inl e \<Rightarrow> Inl e
                    | Inr y \<Rightarrow> Inr (h[bm_a s := (h ! bm_a s)[nat k := y]]))))"

definition bitmap_Get :: "heap \<Rightarrow> bitmap_struct \<Rightarrow> int \<Rightarrow> int \<Rightarrow> error + bool" where
  "bitmap_Get h s ident pos =
     (if pos \<ge> bm_w s \<or> ident > bm_i s then Inl ErrIllegalIndex
      else (let l = i64 (i64 (ident * bm_w s) + pos); k = quo l 8
            in case index (h ! bm_a s) k of
                 Inl e \<Rightarrow> Inl e
               | Inr data \<Rightarrow> getBit data (rem l 8)))"

section \<open>The vocabulary of the specification\<close>

text \<open>
  The linear bit position of a cell, the cells inside the bounds of a table,
  bit \<open>p\<close> of a buffer (bit 0 of a byte is its least significant bit) and the
  buffer with bit \<open>p\<close> written.
\<close>

definition linearPosition :: "bitmaptable \<Rightarrow> int \<Rightarrow> int \<Rightarrow> int" where
  "linearPosition t row column = row * Columns t + column"

definition valid :: "bitmaptable \<Rightarrow> int \<Rightarrow> int \<Rightarrow> bool" where
  "valid t row column = (0 \<le> row \<and> row < Rows t \<and> 0 \<le> column \<and> column < Columns t)"

definition bit_at :: "byte list \<Rightarrow> nat \<Rightarrow> bool" where
  "bit_at xs p = bit (xs ! (p div 8)) (p mod 8)"

definition put_bit :: "nat \<Rightarrow> bool \<Rightarrow> byte \<Rightarrow> byte" where
  "put_bit k v x = (if v then set_bit k x else unset_bit k x)"

definition write_bit :: "byte list \<Rightarrow> nat \<Rightarrow> bool \<Rightarrow> byte list" where
  "write_bit xs p v = xs[p div 8 := put_bit (p mod 8) v (xs ! (p div 8))]"

text \<open>
  The invariant of the data model: the slice of the table is allocated, and
  its buffer holds the \<open>rowCount * columnCount\<close> bits of the table, a number
  that fits a Go \<open>int\<close> (a buffer of \<open>2 ^ 60\<close> bytes cannot be allocated).
  Writing a bit keeps it, and so does a caller that writes bytes of the buffer.
\<close>

definition table_inv :: "heap \<Rightarrow> bitmaptable \<Rightarrow> bool" where
  "table_inv h t =
     (bitmap t < length h \<and> Rows t * Columns t < 2 ^ 63 \<and>
      Rows t * Columns t \<le> 8 * int (length (h ! bitmap t)))"

text \<open>
  The heaps a program can reach from the heap \<open>h1\<close> on which it holds the
  table \<open>t\<close>: by \<open>Set\<close> and \<open>Data\<close> on the table, by storing a byte through
  any slice (one returned by \<open>Data\<close> among them) and by allocating.
\<close>

inductive reach :: "heap \<Rightarrow> bitmaptable \<Rightarrow> heap \<Rightarrow> bool"
  for h1 :: heap and t :: bitmaptable where
  fresh: "reach h1 t h1"
| by_Set: "reach h1 t h \<Longrightarrow> Set h t row column v = Inr h' \<Longrightarrow> reach h1 t h'"
| by_Data: "reach h1 t h \<Longrightarrow> Data h t c = (h', d) \<Longrightarrow> reach h1 t h'"
| by_store: "reach h1 t h \<Longrightarrow> a < length h \<Longrightarrow> store h a i x = Inr h' \<Longrightarrow> reach h1 t h'"
| by_alloc: "reach h1 t h \<Longrightarrow> alloc h xs = (h', a) \<Longrightarrow> reach h1 t h'"

code_pred reach .


section \<open>Arithmetic and bits\<close>

lemma i64_id: "is_int x \<Longrightarrow> i64 x = x"
  by (simp add: is_int_def i64_def)

lemma quo_8: "0 \<le> x \<Longrightarrow> quo x 8 = x div 8"
  by (cases "x = 0") (simp_all add: quo_def)

lemma rem_8: "0 \<le> x \<Longrightarrow> rem x 8 = x mod 8"
  by (cases "x = 0") (simp_all add: rem_def)

lemma below_8: "k < 8 \<Longrightarrow> k \<in> {0, 1, 2, 3, 4, 5, 6, 7::nat}"
  by auto

lemma tA_nth: "k < 8 \<Longrightarrow> tA ! k = 2 ^ k"
  by (drule below_8) (auto simp: tA_def)

lemma tB_nth: "k < 8 \<Longrightarrow> tB ! k = NOT (2 ^ k)"
  by (drule below_8) (auto simp: tB_def)

lemma length_tA: "length tA = 8"
  by (simp add: tA_def)

lemma length_tB: "length tB = 8"
  by (simp add: tB_def)

lemma getBit_bit: "0 \<le> k \<Longrightarrow> k < 8 \<Longrightarrow> getBit x k = Inr (bit x (nat k))"
  by (simp add: getBit_def index_def tA_nth and_exp_eq_0_iff_not_bit length_tA)

lemma setBit_True: "0 \<le> k \<Longrightarrow> k < 8 \<Longrightarrow> setBit x k True = Inr (set_bit (nat k) x)"
  by (simp add: setBit_def index_def tA_nth length_tA set_bit_eq_or)

lemma setBit_False: "0 \<le> k \<Longrightarrow> k < 8 \<Longrightarrow> setBit x k False = Inr (unset_bit (nat k) x)"
  by (simp add: setBit_def index_def tB_nth length_tB unset_bit_eq_and_not)

lemma setBit_put: "0 \<le> k \<Longrightarrow> k < 8 \<Longrightarrow> setBit x k v = Inr (put_bit (nat k) v x)"
  by (cases v) (simp_all add: setBit_True setBit_False put_bit_def)

lemma bit_put_bit: "k < 8 \<Longrightarrow> bit (put_bit k v x) j = (if j = k then v else bit x j)"
  by (auto simp: put_bit_def bit_set_bit_iff bit_unset_bit_iff)

lemma linear_bounds:
  assumes "valid t row column"
  shows "0 \<le> linearPosition t row column" and "linearPosition t row column < Rows t * Columns t"
proof -
  from assms have r: "0 \<le> row" "row + 1 \<le> Rows t" and c: "0 \<le> column" "column < Columns t"
    by (simp_all add: valid_def)
  show "0 \<le> linearPosition t row column"
    using r c by (simp add: linearPosition_def)
  have "(row + 1) * Columns t \<le> Rows t * Columns t"
    using r c by (intro mult_right_mono) simp_all
  then show "linearPosition t row column < Rows t * Columns t"
    using c by (simp add: linearPosition_def algebra_simps)
qed

lemma getPos_linear:
  assumes "valid t row column" and "Rows t * Columns t < 2 ^ 63"
  shows "getPos t row column = (linearPosition t row column div 8, linearPosition t row column mod 8)"
proof -
  have p: "0 \<le> linearPosition t row column" "linearPosition t row column < 2 ^ 63"
    using linear_bounds [OF assms(1)] assms(2) by simp_all
  have "0 \<le> row * Columns t" "row * Columns t \<le> linearPosition t row column"
    using assms(1) by (simp_all add: valid_def linearPosition_def)
  then have "i64 (row * Columns t) = row * Columns t"
    using p by (intro i64_id) (simp add: is_int_def)
  moreover have "i64 (linearPosition t row column) = linearPosition t row column"
    using p by (intro i64_id) (simp add: is_int_def)
  ultimately show ?thesis
    using p by (simp add: getPos_def Columns_def [symmetric] linearPosition_def [symmetric] quo_8 rem_8 Let_def)
qed

lemma linear_inj:
  assumes "valid t r1 c1" and "valid t r2 c2" and "linearPosition t r1 c1 = linearPosition t r2 c2"
  shows "r1 = r2 \<and> c1 = c2"
proof -
  from assms(1,2) have c: "0 \<le> c1" "c1 < Columns t" "0 \<le> c2" "c2 < Columns t"
    by (simp_all add: valid_def)
  have "(r1 * Columns t + c1) div Columns t = r1" "(r2 * Columns t + c2) div Columns t = r2"
    using c by simp_all
  then have "r1 = r2"
    using assms(3) by (simp add: linearPosition_def)
  then show ?thesis
    using assms(3) by (simp add: linearPosition_def)
qed

section \<open>What Get and Set do inside the bounds\<close>

lemma byte_index:
  assumes "table_inv h t" and "valid t row column"
  shows "0 \<le> linearPosition t row column div 8"
    and "linearPosition t row column div 8 < int (length (h ! bitmap t))"
proof -
  have p: "0 \<le> linearPosition t row column" "linearPosition t row column < Rows t * Columns t"
    using linear_bounds [OF assms(2)] by simp_all
  then show "0 \<le> linearPosition t row column div 8"
    by simp
  have "linearPosition t row column < 8 * int (length (h ! bitmap t))"
    using p assms(1) by (simp add: table_inv_def)
  then show "linearPosition t row column div 8 < int (length (h ! bitmap t))"
    by simp
qed

lemma bit_index:
  assumes "table_inv h t" and "valid t row column"
  shows "nat (linearPosition t row column) < 8 * length (h ! bitmap t)"
proof -
  have "linearPosition t row column < 8 * int (length (h ! bitmap t))"
    using linear_bounds [OF assms(2)] assms(1) by (simp add: table_inv_def)
  then show ?thesis
    using linear_bounds(1) [OF assms(2)] by (simp add: nat_less_iff)
qed

lemma Get_valid:
  assumes "table_inv h t" and "valid t row column"
  shows "Get h t row column = Inr (bit_at (h ! bitmap t) (nat (linearPosition t row column)))"
proof -
  let ?p = "linearPosition t row column"
  have pos: "getPos t row column = (?p div 8, ?p mod 8)"
    using assms by (simp add: getPos_linear table_inv_def)
  have chk: "\<not> (column \<ge> uint (columns t) \<or> row \<ge> sint (rows t))"
    using assms(2) by (simp add: valid_def Rows_def Columns_def)
  have p0: "0 \<le> ?p"
    using linear_bounds [OF assms(2)] by simp
  have dm: "nat (?p div 8) = nat ?p div 8" "nat (?p mod 8) = nat ?p mod 8"
    using p0 by (simp_all add: nat_div_distrib nat_mod_distrib)
  show ?thesis
    using byte_index [OF assms] chk
    by (simp add: Get_def pos index_def getBit_bit bit_at_def dm)
qed

lemma Set_valid:
  assumes "table_inv h t" and "valid t row column"
  shows "Set h t row column v =
    Inr (h[bitmap t := write_bit (h ! bitmap t) (nat (linearPosition t row column)) v])"
proof -
  let ?p = "linearPosition t row column"
  have pos: "getPos t row column = (?p div 8, ?p mod 8)"
    using assms by (simp add: getPos_linear table_inv_def)
  have chk: "\<not> (column \<ge> uint (columns t) \<or> row \<ge> sint (rows t))"
    using assms(2) by (simp add: valid_def Rows_def Columns_def)
  have p0: "0 \<le> ?p"
    using linear_bounds [OF assms(2)] by simp
  have dm: "nat (?p div 8) = nat ?p div 8" "nat (?p mod 8) = nat ?p mod 8"
    using p0 by (simp_all add: nat_div_distrib nat_mod_distrib)
  show ?thesis
    using byte_index [OF assms] chk
    by (simp add: Set_def pos index_def setBit_put write_bit_def dm)
qed

lemma length_write_bit: "length (write_bit xs p v) = length xs"
  by (simp add: write_bit_def)

lemma bit_at_write_bit:
  assumes "p < 8 * length xs"
  shows "bit_at (write_bit xs p v) q = (if q = p then v else bit_at xs q)"
proof (cases "q div 8 = p div 8")
  case True
  then have "q = p \<longleftrightarrow> q mod 8 = p mod 8"
    by (metis div_mult_mod_eq)
  with True assms show ?thesis
    by (simp add: bit_at_def write_bit_def bit_put_bit)
next
  case False
  then have "q \<noteq> p" by auto
  with False show ?thesis
    by (simp add: bit_at_def write_bit_def)
qed

lemma table_inv_update:
  "table_inv h t \<Longrightarrow> length ys = length (h ! bitmap t) \<Longrightarrow> table_inv (h[bitmap t := ys]) t"
  by (simp add: table_inv_def)

lemma Get_heap_cong: "h2 ! bitmap t = h ! bitmap t \<Longrightarrow> Get h2 t row column = Get h t row column"
  by (simp add: Get_def)


section \<open>The size of the buffer\<close>

lemma calculateSize_exact:
  assumes "0 \<le> rs * cs" and "rs * cs < 2 ^ 63"
  shows "calculateSize rs cs = rs * cs div 8 + (if rs * cs mod 8 = 0 then 0 else 1)"
proof -
  let ?n = "rs * cs"
  have w: "i64 ?n = ?n"
    using assms by (intro i64_id) (simp add: is_int_def)
  have s: "is_int (?n div 8 + 1)"
    using assms by (simp add: is_int_def)
  show ?thesis
    using assms(1) by (simp add: calculateSize_def w quo_8 rem_8 i64_id [OF s] Let_def)
qed

lemma ceiling_8: "\<lceil>real_of_int n / 8\<rceil> = n div 8 + (if n mod 8 = 0 then 0 else 1)"
proof -
  have "\<lceil>real_of_int n / 8\<rceil> = - (- n div 8)"
    using ceiling_divide_eq_div [of n 8] by simp
  then show ?thesis
    by (simp add: zdiv_zminus1_eq_if)
qed

lemma calculateSize_ceiling:
  assumes "0 \<le> rs * cs" and "rs * cs < 2 ^ 63"
  shows "calculateSize rs cs = \<lceil>real_of_int (rs * cs) / 8\<rceil>"
  by (simp only: calculateSize_exact [OF assms] ceiling_8)

lemma div_8_cover: "n \<le> 8 * (n div 8 + (if n mod 8 = 0 then 0 else 1))" for n :: int
proof -
  define q r where "q = n div 8" and "r = n mod 8"
  have "n = 8 * q + r" and "r < 8"
    by (simp_all add: q_def r_def)
  then have "n \<le> 8 * (q + (if r = 0 then 0 else 1))"
    by (cases "r = 0") simp_all
  then show ?thesis
    by (simp only: q_def r_def)
qed

lemma calculateSize_holds:
  assumes "0 \<le> rs * cs" and "rs * cs < 2 ^ 63"
  shows "rs * cs \<le> 8 * calculateSize rs cs" and "0 \<le> calculateSize rs cs"
proof -
  show "rs * cs \<le> 8 * calculateSize rs cs"
    by (simp only: calculateSize_exact [OF assms] div_8_cover)
  have "0 \<le> rs * cs div 8"
    using assms(1) by simp
  then show "0 \<le> calculateSize rs cs"
    by (simp add: calculateSize_exact [OF assms])
qed

section \<open>Construction\<close>

lemma Rows_new: "Rows \<lparr>rows = word_of_int rs, columns = c, bitmap = a\<rparr> = i64 rs"
  by (simp add: Rows_def i64_def int_word_sint)

lemma Columns_new: "Columns \<lparr>rows = r, columns = word_of_int cs, bitmap = a\<rparr> = cs mod 2 ^ 16"
  by (simp add: Columns_def uint_word_of_int)

lemma div_8_fit: "n \<le> 8 * m \<Longrightarrow> n div 8 + (if n mod 8 = 0 then 0 else 1) \<le> m" for n m :: int
proof -
  assume a: "n \<le> 8 * m"
  define q r where "q = n div 8" and "r = n mod 8"
  have "n = 8 * q + r" and "0 \<le> r"
    by (simp_all add: q_def r_def)
  with a have "q + (if r = 0 then 0 else 1) \<le> m"
    by (cases "r = 0") simp_all
  then show ?thesis
    by (simp only: q_def r_def)
qed

lemma newNTS_table:
  assumes "newNTS h rs cs = Inr (h', t)"
  shows "h' = h @ [replicate (nat (calculateSize rs cs)) 0]"
    and "t = \<lparr>rows = word_of_int rs, columns = word_of_int cs, bitmap = length h\<rparr>"
    and "0 \<le> calculateSize rs cs" and "calculateSize rs cs \<le> maxAlloc"
  using assms by (auto simp: newNTS_def make_bytes_def alloc_def split: if_splits)

lemma newNTS_ok:
  assumes "0 \<le> rs * cs" and "rs * cs \<le> 8 * maxAlloc"
  shows "newNTS h rs cs =
    Inr (h @ [replicate (nat (calculateSize rs cs)) 0],
         \<lparr>rows = word_of_int rs, columns = word_of_int cs, bitmap = length h\<rparr>)"
proof -
  have n: "rs * cs < 2 ^ 63"
    using assms(2) by (simp add: maxAlloc_def)
  have "calculateSize rs cs \<le> maxAlloc"
    by (simp only: calculateSize_exact [OF assms(1) n] div_8_fit [OF assms(2)])
  then show ?thesis
    using calculateSize_holds(2) [OF assms(1) n]
    by (simp add: newNTS_def make_bytes_def alloc_def)
qed

lemma newNTS_inv:
  assumes "0 \<le> rs" and "0 \<le> cs" and "rs * cs < 2 ^ 63"
    and "newNTS h rs cs = Inr (h', t)"
  shows "table_inv h' t"
proof -
  have n: "0 \<le> rs * cs"
    using assms(1,2) by simp
  have h': "h' = h @ [replicate (nat (calculateSize rs cs)) 0]"
    and t: "t = \<lparr>rows = word_of_int rs, columns = word_of_int cs, bitmap = length h\<rparr>"
    by (rule newNTS_table [OF assms(4)])+
  have c: "0 \<le> Columns t" "Columns t \<le> cs"
    using assms(2) by (simp_all add: t Columns_new zmod_le_nonneg_dividend)
  have "Rows t * Columns t \<le> rs * cs"
  proof (cases "cs = 0")
    case True
    then have "Columns t = 0"
      by (simp add: t Columns_def)
    then show ?thesis
      using True by simp
  next
    case False
    then have "1 \<le> cs"
      using assms(2) by simp
    then have "rs * 1 \<le> rs * cs"
      using assms(1) by (intro mult_left_mono) simp_all
    then have "is_int rs"
      using assms(1,3) by (simp add: is_int_def)
    then have "Rows t = rs"
      by (simp add: t Rows_new i64_id)
    then show ?thesis
      using c assms(1) by (simp add: mult_left_mono)
  qed
  moreover have "rs * cs \<le> 8 * int (length (h' ! bitmap t))"
    using calculateSize_holds [OF n assms(3)] by (simp add: h' t)
  ultimately show ?thesis
    using assms(3) by (simp add: table_inv_def h' t)
qed

lemma Get_zeros:
  assumes "table_inv h t" and "valid t row column" and "h ! bitmap t = replicate n 0"
  shows "Get h t row column = Inr False"
proof -
  have "nat (linearPosition t row column) < 8 * n"
    using bit_index [OF assms(1,2)] by (simp add: assms(3))
  then have "nat (linearPosition t row column) div 8 < n"
    by simp
  then show ?thesis
    by (simp add: Get_valid [OF assms(1,2)] assms(3) bit_at_def)
qed

section \<open>The states of a table\<close>

lemma Set_heap:
  assumes "Set h t row column v = Inr h'"
  shows "\<exists>ys. h' = h[bitmap t := ys] \<and> length ys = length (h ! bitmap t)"
  using assms by (auto simp: Set_def split: if_splits prod.splits sum.splits)

lemma store_result:
  "store h a i x = Inr h' \<Longrightarrow>
     h' = h[a := (h ! a)[nat i := x]] \<and> 0 \<le> i \<and> i < int (length (h ! a))"
  by (simp add: store_def split: if_splits)

lemma reach_buffer:
  assumes "reach h1 t h" and "bitmap t < length h1"
  shows "bitmap t < length h \<and> length (h ! bitmap t) = length (h1 ! bitmap t)"
  using assms
proof (induction rule: reach.induct)
  case fresh
  then show ?case by simp
next
  case (by_Set h row column v h')
  then show ?case
    by (auto dest!: Set_heap)
next
  case (by_Data h c h' d)
  then show ?case
    by (auto simp: Data_def alloc_def nth_append split: if_splits)
next
  case (by_store h a i x h')
  then show ?case
    by (auto dest!: store_result simp: nth_list_update)
next
  case (by_alloc h xs h' a)
  then show ?case
    by (auto simp: alloc_def nth_append)
qed

lemma reach_inv:
  assumes "reach h1 t h" and "table_inv h1 t"
  shows "table_inv h t"
  using reach_buffer [OF assms(1)] assms(2) by (simp add: table_inv_def)

lemma built_inv:
  assumes "newNTS h0 rs cs = Inr (h1, t)" and "0 \<le> rs" and "0 \<le> cs" and "rs * cs < 2 ^ 63"
    and "reach h1 t h"
  shows "table_inv h t"
  using reach_inv [OF assms(5) newNTS_inv [OF assms(2,3,4,1)]] .

section \<open>The errors of Get and Set\<close>

lemma index_error: "index xs i = Inl e \<Longrightarrow> e = IndexOutOfRange"
  by (simp add: index_def split: if_splits)

lemma getBit_error: "getBit x k = Inl e \<Longrightarrow> e = IndexOutOfRange"
  by (auto simp: getBit_def split: sum.splits dest: index_error)

lemma setBit_error: "setBit x k v = Inl e \<Longrightarrow> e = IndexOutOfRange"
  by (auto simp: setBit_def split: sum.splits if_splits dest: index_error)

lemma Get_illegal:
  "Get h t row column = Inl ErrIllegalIndex \<longleftrightarrow> column \<ge> Columns t \<or> row \<ge> Rows t"
  by (auto simp: Get_def Rows_def Columns_def split: prod.splits sum.splits
      dest: index_error getBit_error)

lemma Set_illegal:
  "Set h t row column v = Inl ErrIllegalIndex \<longleftrightarrow> column \<ge> Columns t \<or> row \<ge> Rows t"
  by (auto simp: Set_def Rows_def Columns_def split: prod.splits sum.splits
      dest: index_error setBit_error)

section \<open>Raw access and the two variants\<close>

lemma copy_same_length: "length dst = length src \<Longrightarrow> copy dst src = src"
  by (simp add: copy_def)

lemma Data_copy: "Data h t True = (h @ [h ! bitmap t], length h)"
  by (simp add: Data_def alloc_def copy_same_length)

lemma Set_other:
  "Set h t row column v = Inr h' \<Longrightarrow> a \<noteq> bitmap t \<Longrightarrow> h' ! a = h ! a"
  by (auto simp: Set_def split: if_splits prod.splits sum.splits)

lemma Lock_free: "\<not> ms ! m \<Longrightarrow> Lock ms m = Some (ms[m := True])"
  by (simp add: Lock_def)

lemma Unlock_Lock: "m < length ms \<Longrightarrow> \<not> ms ! m \<Longrightarrow> Unlock (ms[m := True]) m = ms"
  by (simp add: Unlock_def list_update_same_conv)

lemma call_ts_nts:
  assumes "mu t < length ms" and "\<not> ms ! mu t"
  shows "\<exists>ms'. call_ts h ms t c = Some (fst (call_nts h (b t) c), snd (call_nts h (b t) c), ms') \<and>
    (\<not> holds_lock h (b t) c \<longrightarrow> ms' = ms)"
proof (cases c)
  case Call_Rows
  then show ?thesis by (simp add: ts_Rows_def)
next
  case Call_Columns
  then show ?thesis by (simp add: ts_Columns_def)
next
  case (Call_Get row column)
  then show ?thesis by (simp add: ts_Get_def split: sum.splits)
next
  case (Call_Set row column v)
  then show ?thesis
    using assms by (simp add: ts_Set_def Lock_free Unlock_Lock split: sum.splits)
next
  case (Call_Data c)
  then show ?thesis
    using assms by (simp add: ts_Data_def Lock_free Unlock_Lock split: prod.splits)
qed

lemma run_ts_nts:
  assumes "mu t < length ms" and "\<not> ms ! mu t"
  shows "calm h (b t) cs \<Longrightarrow>
    run_ts h ms t cs = Some (fst (run_nts h (b t) cs), snd (run_nts h (b t) cs), ms)"
proof (induction cs arbitrary: h)
  case Nil
  show ?case by simp
next
  case (Cons c cs)
  obtain r h1 where n: "call_nts h (b t) c = (r, h1)"
    by (cases "call_nts h (b t) c")
  obtain rs h2 where m: "run_nts h1 (b t) cs = (rs, h2)"
    by (cases "run_nts h1 (b t) cs")
  from Cons.prems have q: "\<not> holds_lock h (b t) c" and k: "calm h1 (b t) cs"
    by (simp_all add: n)
  have "call_ts h ms t c = Some (r, h1, ms)"
    using call_ts_nts [OF assms, of h c] q by (auto simp: n)
  moreover have "run_ts h1 ms t cs = Some (rs, h2, ms)"
    using Cons.IH [OF k] by (simp add: m)
  ultimately show ?case
    by (simp add: n m)
qed

lemma variants_agree:
  assumes "newNTS h rs cs = Inr (h1, t)"
  shows "\<exists>t'. newTS h ms rs cs = Inr (h1, ms @ [False], t') \<and> b t' = t \<and>
    ts_Rows t' = Rows t \<and> ts_Columns t' = Columns t \<and>
    (\<forall>calls. calm h1 t calls \<longrightarrow>
       run_ts h1 (ms @ [False]) t' calls =
         Some (fst (run_nts h1 t calls), snd (run_nts h1 t calls), ms @ [False]))"
proof -
  let ?t = "\<lparr>mu = length ms, b = t\<rparr>"
  have new: "newTS h ms rs cs = Inr (h1, ms @ [False], ?t)"
    by (simp add: newTS_def assms)
  have "run_ts h1 (ms @ [False]) ?t calls =
      Some (fst (run_nts h1 t calls), snd (run_nts h1 t calls), ms @ [False])"
    if "calm h1 t calls" for calls
    using run_ts_nts [of ?t "ms @ [False]" h1 calls] that by simp
  then show ?thesis
    using new by (intro exI [of _ ?t]) (simp add: ts_Rows_def ts_Columns_def)
qed

lemma variants_fail: "newNTS h rs cs = Inl e \<Longrightarrow> newTS h ms rs cs = Inl e"
  by (simp add: newTS_def)

section \<open>The claims\<close>

text \<open>
  C1 (round-trip law), as amended. For every table built by \<open>newNTS\<close> from
  \<open>rowCount \<ge> 0\<close> and \<open>columnCount \<ge> 0\<close> whose product does not overflow (it is
  below \<open>2 ^ 63\<close>), in every state the program reaches from it, and for every
  cell with \<open>0 \<le> row < Rows()\<close> and \<open>0 \<le> column < Columns()\<close>:
  \<open>Set(row, column, v)\<close> returns no error and a following \<open>Get(row, column)\<close>
  returns \<open>v\<close> with no error, for \<open>v\<close> true and for \<open>v\<close> false.
\<close>

theorem C1_round_trip:
  assumes "newNTS h0 rs cs = Inr (h1, t)" and "0 \<le> rs" and "0 \<le> cs" and "rs * cs < 2 ^ 63"
    and "reach h1 t h" and "valid t row column"
  shows "\<exists>h'. Set h t row column v = Inr h' \<and> Get h' t row column = Inr v"
proof -
  let ?p = "nat (linearPosition t row column)"
  let ?h = "h[bitmap t := write_bit (h ! bitmap t) ?p v]"
  have i: "table_inv h t"
    by (rule built_inv [OF assms(1-5)])
  have a: "bitmap t < length h"
    using i by (simp add: table_inv_def)
  have inv: "table_inv ?h t"
    using i by (intro table_inv_update) (simp_all add: length_write_bit)
  have p: "?p < 8 * length (h ! bitmap t)"
    by (rule bit_index [OF i assms(6)])
  have "Get ?h t row column = Inr (bit_at (write_bit (h ! bitmap t) ?p v) ?p)"
    using a by (simp add: Get_valid [OF inv assms(6)])
  then have "Get ?h t row column = Inr v"
    by (simp add: bit_at_write_bit [OF p])
  then show ?thesis
    by (simp add: Set_valid [OF i assms(6)])
qed

theorem C1_round_trip_witness:
  "newNTS [] 10 5 = Inr ([replicate 7 0], \<lparr>rows = 10, columns = 5, bitmap = 0\<rparr>) \<and>
   (0::int) \<le> 10 \<and> (0::int) \<le> 5 \<and> (10::int) * 5 < 2 ^ 63 \<and>
   reach [replicate 7 0] \<lparr>rows = 10, columns = 5, bitmap = 0\<rparr> [replicate 7 0] \<and>
   valid \<lparr>rows = 10, columns = 5, bitmap = 0\<rparr> 3 2 \<and>
   (\<exists>h'. Set [replicate 7 0] \<lparr>rows = 10, columns = 5, bitmap = 0\<rparr> 3 2 True = Inr h' \<and>
      Get h' \<lparr>rows = 10, columns = 5, bitmap = 0\<rparr> 3 2 = Inr True)"
proof -
  let ?t = "\<lparr>rows = 10, columns = 5, bitmap = 0\<rparr>"
  have n: "newNTS [] 10 5 = Inr ([replicate 7 0], ?t)"
    by (simp add: newNTS_def make_bytes_def maxAlloc_def alloc_def calculateSize_def i64_def
        quo_def rem_def)
  have r: "reach [replicate 7 0] ?t [replicate 7 0]"
    by (rule reach.fresh)
  have v: "valid ?t 3 2"
    by (simp add: valid_def Rows_def Columns_def)
  show ?thesis
    using C1_round_trip [OF n _ _ _ r v, of True] n r v by simp
qed

theorem C1_counterexample:
  "newNTS [] (2 ^ 61) 8 = Inr ([[]], \<lparr>rows = 2 ^ 61, columns = 8, bitmap = 0\<rparr>) \<and>
   valid \<lparr>rows = 2 ^ 61, columns = 8, bitmap = 0\<rparr> 0 0 \<and>
   Set [[]] \<lparr>rows = 2 ^ 61, columns = 8, bitmap = 0\<rparr> 0 0 True = Inl IndexOutOfRange"
  by (simp add: newNTS_def make_bytes_def maxAlloc_def alloc_def calculateSize_def i64_def
      quo_def rem_def valid_def Rows_def Columns_def Set_def getPos_def index_def)

text \<open>
  C2 (frame property of Set), as amended. For every table built by \<open>newNTS\<close>
  from \<open>rowCount \<ge> 0\<close> and \<open>columnCount \<ge> 0\<close> whose product does not overflow, in
  every state the program reaches from it, and for every cell \<open>(r1, c1)\<close>
  inside the bounds: \<open>Set(r1, c1, v)\<close> succeeds and leaves \<open>Get(r2, c2)\<close> as it
  was for every other cell inside the bounds. One bit of the buffer is
  written: bit \<open>r1 * columnCount + c1\<close> holds \<open>v\<close>, every other bit of the
  buffer keeps its value, the buffer keeps its length and no other array of
  the heap changes.
\<close>

theorem C2_frame:
  assumes "newNTS h0 rs cs = Inr (h1, t)" and "0 \<le> rs" and "0 \<le> cs" and "rs * cs < 2 ^ 63"
    and "reach h1 t h" and "valid t r1 c1"
  shows "\<exists>h'. Set h t r1 c1 v = Inr h' \<and>
    (\<forall>r2 c2. valid t r2 c2 \<and> (r2, c2) \<noteq> (r1, c1) \<longrightarrow> Get h' t r2 c2 = Get h t r2 c2) \<and>
    length h' = length h \<and>
    (\<forall>a. a \<noteq> bitmap t \<longrightarrow> h' ! a = h ! a) \<and>
    length (h' ! bitmap t) = length (h ! bitmap t) \<and>
    (\<forall>q. bit_at (h' ! bitmap t) q =
       (if q = nat (linearPosition t r1 c1) then v else bit_at (h ! bitmap t) q))"
proof -
  let ?p = "nat (linearPosition t r1 c1)"
  let ?h = "h[bitmap t := write_bit (h ! bitmap t) ?p v]"
  have i: "table_inv h t"
    by (rule built_inv [OF assms(1-5)])
  have a: "bitmap t < length h"
    using i by (simp add: table_inv_def)
  have inv: "table_inv ?h t"
    using i by (intro table_inv_update) (simp_all add: length_write_bit)
  have p: "?p < 8 * length (h ! bitmap t)"
    by (rule bit_index [OF i assms(6)])
  have bits: "bit_at (?h ! bitmap t) q = (if q = ?p then v else bit_at (h ! bitmap t) q)" for q
    using a by (simp add: bit_at_write_bit [OF p])
  have other: "Get ?h t r2 c2 = Get h t r2 c2"
    if v2: "valid t r2 c2" and ne: "(r2, c2) \<noteq> (r1, c1)" for r2 c2
  proof -
    have "linearPosition t r2 c2 \<noteq> linearPosition t r1 c1"
      using linear_inj [OF v2 assms(6)] ne by auto
    moreover have "0 \<le> linearPosition t r2 c2" "0 \<le> linearPosition t r1 c1"
      using linear_bounds(1) [OF v2] linear_bounds(1) [OF assms(6)] by simp_all
    ultimately have "nat (linearPosition t r2 c2) \<noteq> ?p"
      by simp
    then show ?thesis
      by (simp add: Get_valid [OF inv v2] Get_valid [OF i v2] bits)
  qed
  have "Set h t r1 c1 v = Inr ?h"
    by (rule Set_valid [OF i assms(6)])
  moreover have "length ?h = length h" "length (?h ! bitmap t) = length (h ! bitmap t)"
    using a by (simp_all add: length_write_bit)
  moreover have "\<forall>a. a \<noteq> bitmap t \<longrightarrow> ?h ! a = h ! a"
    by simp
  ultimately show ?thesis
    using other bits by blast
qed

theorem C2_frame_witness:
  "newNTS [] 4 4 = Inr ([[0, 0]], \<lparr>rows = 4, columns = 4, bitmap = 0\<rparr>) \<and>
   (0::int) \<le> 4 \<and> (4::int) * 4 < 2 ^ 63 \<and>
   reach [[0, 0]] \<lparr>rows = 4, columns = 4, bitmap = 0\<rparr> [[255, 0]] \<and>
   valid \<lparr>rows = 4, columns = 4, bitmap = 0\<rparr> 1 2 \<and>
   valid \<lparr>rows = 4, columns = 4, bitmap = 0\<rparr> 1 3 \<and>
   Set [[255, 0]] \<lparr>rows = 4, columns = 4, bitmap = 0\<rparr> 1 2 False = Inr [[191, 0]] \<and>
   Get [[191, 0]] \<lparr>rows = 4, columns = 4, bitmap = 0\<rparr> 1 3 =
     Get [[255, 0]] \<lparr>rows = 4, columns = 4, bitmap = 0\<rparr> 1 3 \<and>
   bit_at [191, 0] 6 = False \<and> bit_at [191, 0] 7 = bit_at [255, 0] 7"
proof -
  let ?t = "\<lparr>rows = 4, columns = 4, bitmap = 0\<rparr>"
  have n: "newNTS [] 4 4 = Inr ([[0, 0]], ?t)"
    by (simp add: newNTS_def make_bytes_def maxAlloc_def alloc_def calculateSize_def i64_def
        quo_def rem_def numeral_eq_Suc)
  have "store [[0, 0]] 0 0 255 = Inr [[255, 0]]"
    by (simp add: store_def)
  then have r: "reach [[0, 0]] ?t [[255, 0]]"
    by (intro reach.by_store [OF reach.fresh]) simp_all
  have v: "valid ?t 1 2" and w: "valid ?t 1 3"
    by (simp_all add: valid_def Rows_def Columns_def)
  have i: "table_inv [[255, 0]] ?t"
    by (simp add: table_inv_def Rows_def Columns_def)
  have s: "Set [[255, 0]] ?t 1 2 False = Inr [[191, 0]]"
    by (simp add: Set_valid [OF i v] linearPosition_def Columns_def write_bit_def put_bit_def)
  have p: "nat (linearPosition ?t 1 2) = 6"
    by (simp add: linearPosition_def Columns_def)
  from C2_frame [OF n _ _ _ r v, of False] s p w
  have "Get [[191, 0]] ?t 1 3 = Get [[255, 0]] ?t 1 3"
    and "\<forall>q. bit_at [191, 0] q = (if q = 6 then False else bit_at [255, 0] q)"
    by auto
  then show ?thesis
    using n r v w s by simp
qed

theorem C2_counterexample:
  "newNTS [] (2 ^ 61 + 1) 8 = Inr ([[0]], \<lparr>rows = 2 ^ 61 + 1, columns = 8, bitmap = 0\<rparr>) \<and>
   valid \<lparr>rows = 2 ^ 61 + 1, columns = 8, bitmap = 0\<rparr> 0 0 \<and>
   valid \<lparr>rows = 2 ^ 61 + 1, columns = 8, bitmap = 0\<rparr> (2 ^ 61) 0 \<and>
   Get [[0]] \<lparr>rows = 2 ^ 61 + 1, columns = 8, bitmap = 0\<rparr> 0 0 = Inr False \<and>
   Set [[0]] \<lparr>rows = 2 ^ 61 + 1, columns = 8, bitmap = 0\<rparr> (2 ^ 61) 0 True = Inr [[1]] \<and>
   Get [[1]] \<lparr>rows = 2 ^ 61 + 1, columns = 8, bitmap = 0\<rparr> 0 0 = Inr True"
  by (simp add: newNTS_def make_bytes_def maxAlloc_def alloc_def calculateSize_def i64_def
      quo_def rem_def valid_def Rows_def Columns_def Set_def Get_def getPos_def index_def
      setBit_def getBit_def tA_def)

text \<open>
  C3 (address algorithm), as amended. For every table built by \<open>newNTS\<close> from
  \<open>rowCount \<ge> 0\<close> and \<open>columnCount \<ge> 0\<close> whose product does not overflow, in
  every state the program reaches from it, and for every cell inside the
  bounds, with \<open>p = row * columnCount + column\<close>: \<open>getPos\<close> returns byte index
  \<open>p / 8\<close> and bit index \<open>p % 8\<close>; \<open>Get\<close> tests that byte against the mask
  \<open>2 ^ (p % 8)\<close>; \<open>Set\<close> ORs the mask into that byte, or ANDs its complement,
  and touches nothing else. On every table, bit \<open>k\<close> of a byte has the mask
  \<open>2 ^ k\<close>: bit 0 is the least significant bit (mask 1), bit 7 the most
  significant (mask 128); and with one column, row 39 is byte 4, bit 7.
\<close>

theorem C3_address:
  "(newNTS h0 rs cs = Inr (h1, t) \<and> 0 \<le> rs \<and> 0 \<le> cs \<and> rs * cs < 2 ^ 63 \<and>
    reach h1 t h \<and> valid t row column \<longrightarrow>
      getPos t row column =
        ((row * Columns t + column) div 8, (row * Columns t + column) mod 8) \<and>
      Get h t row column =
        Inr (h ! bitmap t ! nat ((row * Columns t + column) div 8)
               AND 2 ^ nat ((row * Columns t + column) mod 8) \<noteq> 0) \<and>
      Set h t row column True =
        Inr (h[bitmap t := (h ! bitmap t)[nat ((row * Columns t + column) div 8) :=
               h ! bitmap t ! nat ((row * Columns t + column) div 8)
                 OR 2 ^ nat ((row * Columns t + column) mod 8)]]) \<and>
      Set h t row column False =
        Inr (h[bitmap t := (h ! bitmap t)[nat ((row * Columns t + column) div 8) :=
               h ! bitmap t ! nat ((row * Columns t + column) div 8)
                 AND NOT (2 ^ nat ((row * Columns t + column) mod 8))]])) \<and>
   (\<forall>k. 0 \<le> k \<and> k < 8 \<longrightarrow>
      index tA k = Inr (2 ^ nat k) \<and> index tB k = Inr (NOT (2 ^ nat k))) \<and>
   index tA 0 = Inr 1 \<and> index tA 7 = Inr 128 \<and>
   (Columns t = 1 \<longrightarrow> getPos t 39 0 = (4, 7))"
proof (intro conjI impI allI)
  assume a: "newNTS h0 rs cs = Inr (h1, t) \<and> 0 \<le> rs \<and> 0 \<le> cs \<and> rs * cs < 2 ^ 63 \<and>
    reach h1 t h \<and> valid t row column"
  then have v: "valid t row column"
    by simp
  from a have i: "table_inv h t"
    by (intro built_inv [of h0 rs cs h1 t h]) simp_all
  let ?p = "row * Columns t + column"
  have p0: "0 \<le> ?p"
    using linear_bounds(1) [OF v] by (simp add: linearPosition_def)
  have dm: "nat ?p div 8 = nat (?p div 8)" "nat ?p mod 8 = nat (?p mod 8)"
    using p0 by (simp_all add: nat_div_distrib nat_mod_distrib)
  show "getPos t row column = (?p div 8, ?p mod 8)"
    using getPos_linear [OF v] i by (simp add: table_inv_def linearPosition_def)
  show "Get h t row column = Inr (h ! bitmap t ! nat (?p div 8) AND 2 ^ nat (?p mod 8) \<noteq> 0)"
    by (simp add: Get_valid [OF i v] bit_at_def linearPosition_def dm and_exp_eq_0_iff_not_bit)
  show "Set h t row column True =
    Inr (h[bitmap t := (h ! bitmap t)[nat (?p div 8) :=
       h ! bitmap t ! nat (?p div 8) OR 2 ^ nat (?p mod 8)]])"
    by (simp add: Set_valid [OF i v] write_bit_def put_bit_def linearPosition_def dm
        set_bit_eq_or)
  show "Set h t row column False =
    Inr (h[bitmap t := (h ! bitmap t)[nat (?p div 8) :=
       h ! bitmap t ! nat (?p div 8) AND NOT (2 ^ nat (?p mod 8))]])"
    by (simp add: Set_valid [OF i v] write_bit_def put_bit_def linearPosition_def dm
        unset_bit_eq_and_not)
next
  fix k :: int
  assume k: "0 \<le> k \<and> k < 8"
  then have "nat k < 8"
    by linarith
  then show "index tA k = Inr (2 ^ nat k)" and "index tB k = Inr (NOT (2 ^ nat k))"
    using k by (simp_all add: index_def length_tA length_tB tA_nth tB_nth)
next
  show "index tA 0 = Inr 1" and "index tA 7 = Inr 128"
    by (simp_all add: index_def tA_def)
next
  assume "Columns t = 1"
  then show "getPos t 39 0 = (4, 7)"
    by (simp add: getPos_def Columns_def i64_def quo_def rem_def)
qed

theorem C3_address_witness:
  "newNTS [] 50 1 = Inr ([[0, 0, 0, 0, 0, 0, 0]], \<lparr>rows = 50, columns = 1, bitmap = 0\<rparr>) \<and>
   (0::int) \<le> 50 \<and> (0::int) \<le> 1 \<and> (50::int) * 1 < 2 ^ 63 \<and>
   reach [[0, 0, 0, 0, 0, 0, 0]] \<lparr>rows = 50, columns = 1, bitmap = 0\<rparr>
     [[0, 0, 0, 0, 0, 0, 0]] \<and>
   reach [[0, 0, 0, 0, 0, 0, 0]] \<lparr>rows = 50, columns = 1, bitmap = 0\<rparr>
     [[0, 0, 0, 0, 128, 0, 0]] \<and>
   valid \<lparr>rows = 50, columns = 1, bitmap = 0\<rparr> 39 0 \<and>
   Columns \<lparr>rows = 50, columns = 1, bitmap = 0\<rparr> = 1 \<and>
   getPos \<lparr>rows = 50, columns = 1, bitmap = 0\<rparr> 39 0 = (4, 7) \<and>
   Set [[0, 0, 0, 0, 0, 0, 0]] \<lparr>rows = 50, columns = 1, bitmap = 0\<rparr> 39 0 True =
     Inr [[0, 0, 0, 0, 128, 0, 0]] \<and>
   Get [[0, 0, 0, 0, 128, 0, 0]] \<lparr>rows = 50, columns = 1, bitmap = 0\<rparr> 39 0 = Inr True \<and>
   index tA 7 = Inr 128 \<and> index tB 7 = Inr 127"
proof -
  let ?t = "\<lparr>rows = 50, columns = 1, bitmap = 0\<rparr>"
  let ?h = "[[0, 0, 0, 0, 0, 0, 0 :: byte]]"
  let ?h' = "[[0, 0, 0, 0, 128, 0, 0 :: byte]]"
  have n: "newNTS [] 50 1 = Inr (?h, ?t)"
    by (simp add: newNTS_def make_bytes_def maxAlloc_def alloc_def calculateSize_def i64_def
        quo_def rem_def numeral_eq_Suc)
  have c: "Columns ?t = 1"
    by (simp add: Columns_def)
  have v: "valid ?t 39 0"
    by (simp add: valid_def Rows_def Columns_def)
  have r: "reach ?h ?t ?h"
    by (rule reach.fresh)
  have s: "Set ?h ?t 39 0 True = Inr ?h'"
    using C3_address [of "[]" 50 1 ?h ?t ?h 39 0] n r v c by simp
  have r': "reach ?h ?t ?h'"
    by (rule reach.by_Set [OF r s])
  show ?thesis
    using C3_address [of "[]" 50 1 ?h ?t ?h' 39 0] n r r' v c s by simp
qed

theorem C3_counterexample:
  "newNTS [] (2 ^ 61 + 1) 8 = Inr ([[0]], \<lparr>rows = 2 ^ 61 + 1, columns = 8, bitmap = 0\<rparr>) \<and>
   valid \<lparr>rows = 2 ^ 61 + 1, columns = 8, bitmap = 0\<rparr> (2 ^ 61) 0 \<and>
   getPos \<lparr>rows = 2 ^ 61 + 1, columns = 8, bitmap = 0\<rparr> (2 ^ 61) 0 = (0, 0) \<and>
   (2 ^ 61 * Columns \<lparr>rows = 2 ^ 61 + 1, columns = 8, bitmap = 0\<rparr> + 0) div 8 = 2 ^ 61"
  by (simp add: newNTS_def make_bytes_def maxAlloc_def alloc_def calculateSize_def i64_def
      quo_def rem_def valid_def Rows_def Columns_def getPos_def)

text \<open>
  C4 (construction), as amended. For every \<open>rowCount \<ge> 0\<close> and
  \<open>columnCount \<ge> 0\<close> whose product is at most \<open>8 * maxAlloc = 2 ^ 51\<close>, so that
  the buffer is within the allocation limit of the runtime, \<open>newNTS\<close> succeeds
  and allocates a zero-filled buffer of exactly
  \<open>ceil(rowCount * columnCount / 8)\<close> bytes (7 bytes for 10 rows of 5 columns,
  2 bytes for 4 rows of 4 columns); when moreover \<open>columnCount < 2 ^ 16\<close>,
  \<open>Get(row, column)\<close> on the fresh table returns false for every
  \<open>0 \<le> row < rowCount\<close> and \<open>0 \<le> column < columnCount\<close>.
\<close>

theorem C4_construct:
  assumes "0 \<le> rs" and "0 \<le> cs" and "rs * cs \<le> 8 * maxAlloc"
  shows "\<exists>t. newNTS h rs cs = Inr (h @ [replicate (nat \<lceil>real_of_int (rs * cs) / 8\<rceil>) 0], t) \<and>
    bitmap t = length h \<and>
    int (length ((h @ [replicate (nat \<lceil>real_of_int (rs * cs) / 8\<rceil>) 0]) ! bitmap t)) =
      \<lceil>real_of_int (rs * cs) / 8\<rceil> \<and>
    (cs < 2 ^ 16 \<longrightarrow>
      (\<forall>row column. 0 \<le> row \<and> row < rs \<and> 0 \<le> column \<and> column < cs \<longrightarrow>
         Get (h @ [replicate (nat \<lceil>real_of_int (rs * cs) / 8\<rceil>) 0]) t row column = Inr False))"
proof -
  let ?n = "nat \<lceil>real_of_int (rs * cs) / 8\<rceil>"
  let ?h = "h @ [replicate ?n 0]"
  let ?t = "\<lparr>rows = word_of_int rs, columns = word_of_int cs, bitmap = length h\<rparr>"
  have n: "0 \<le> rs * cs"
    using assms(1,2) by simp
  have m: "rs * cs < 2 ^ 63"
    using assms(3) by (simp add: maxAlloc_def)
  have new: "newNTS h rs cs = Inr (?h, ?t)"
    by (simp add: newNTS_ok [OF n assms(3)] calculateSize_ceiling [OF n m])
  have inv: "table_inv ?h ?t"
    by (rule newNTS_inv [OF assms(1,2) m new])
  have len: "int (length (?h ! bitmap ?t)) = \<lceil>real_of_int (rs * cs) / 8\<rceil>"
    using calculateSize_holds(2) [OF n m]
    by (simp add: calculateSize_ceiling [OF n m])
  have get: "Get ?h ?t row column = Inr False"
    if c: "cs < 2 ^ 16" and v: "0 \<le> row \<and> row < rs \<and> 0 \<le> column \<and> column < cs"
    for row column
  proof -
    have "1 \<le> cs"
      using v by simp
    then have "rs * 1 \<le> rs * cs"
      using assms(1) by (intro mult_left_mono) simp_all
    then have "is_int rs"
      using assms(1) m by (simp add: is_int_def)
    then have "Rows ?t = rs"
      by (simp add: Rows_new i64_id)
    moreover have "Columns ?t = cs"
      using c assms(2) by (simp add: Columns_new)
    ultimately have "valid ?t row column"
      using v by (simp add: valid_def)
    then show ?thesis
      by (rule Get_zeros [OF inv]) simp
  qed
  show ?thesis
    using new len get by (intro exI [of _ ?t]) simp
qed

theorem C4_construct_witness:
  "(0::int) \<le> 10 \<and> (0::int) \<le> 5 \<and> (10::int) * 5 \<le> 8 * maxAlloc \<and> (4::int) * 4 \<le> 8 * maxAlloc \<and>
   (\<exists>t. newNTS [] 10 5 = Inr ([replicate 7 0], t) \<and> Get [replicate 7 0] t 9 4 = Inr False) \<and>
   (\<exists>t. newNTS [] 4 4 = Inr ([replicate 2 0], t) \<and> Get [replicate 2 0] t 0 0 = Inr False)"
  using C4_construct [of 10 5 "[]"] C4_construct [of 4 4 "[]"]
  by (auto simp: maxAlloc_def)

theorem C4_counterexample:
  "newNTS [] 1 65536 = Inr ([replicate 8192 0], \<lparr>rows = 1, columns = 0, bitmap = 0\<rparr>) \<and>
   Get [replicate 8192 0] \<lparr>rows = 1, columns = 0, bitmap = 0\<rparr> 0 0 = Inl ErrIllegalIndex \<and>
   newNTS [] (2 ^ 61) 8 = Inr ([[]], \<lparr>rows = 2 ^ 61, columns = 8, bitmap = 0\<rparr>) \<and>
   \<lceil>real_of_int (2 ^ 61 * 8) / 8\<rceil> = (2 ^ 61 :: int) \<and>
   Get [[]] \<lparr>rows = 2 ^ 61, columns = 8, bitmap = 0\<rparr> 0 0 = Inl IndexOutOfRange \<and>
   newNTS [] (2 ^ 60) 1 = Inl LenOutOfRange"
  by (simp add: newNTS_def make_bytes_def maxAlloc_def alloc_def calculateSize_def i64_def
      quo_def rem_def Get_def getPos_def index_def)

text \<open>
  C5 (bounds failure). The claim is that \<open>Get\<close> and \<open>Set\<close> return
  \<open>ErrIllegalIndex\<close> exactly when \<open>column \<ge> columnCount\<close> or \<open>row \<ge> rowCount\<close>,
  the boundary \<open>row = rowCount\<close> included, and no error otherwise. The table
  does so at the boundary, and row 1001 of 1000 fails in both packages. The
  package \<open>bitmap\<close> tests \<open>id > s.i\<close>: with 1000 identifiers of 12 positions its
  \<open>Set\<close> and \<open>Get\<close> at identifier 1000 panic with an index out of range, and
  with 1001 identifiers of 4 positions its \<open>Set\<close> at identifier 1001 returns no
  error and writes a bit of the padding. A negative column passes the checks
  of both packages and panics.
\<close>

theorem C5_boundary:
  "bitmap_New [] 1000 12 =
     Inr ([replicate 1500 0], \<lparr>bm_i = 1000, bm_w = 12, bm_a = 0\<rparr>) \<and>
   bitmap_Set [replicate 1500 0] \<lparr>bm_i = 1000, bm_w = 12, bm_a = 0\<rparr> 1001 0 True =
     Inl ErrIllegalIndex \<and>
   bitmap_Set [replicate 1500 0] \<lparr>bm_i = 1000, bm_w = 12, bm_a = 0\<rparr> 1000 0 True =
     Inl IndexOutOfRange \<and>
   bitmap_Get [replicate 1500 0] \<lparr>bm_i = 1000, bm_w = 12, bm_a = 0\<rparr> 1000 0 =
     Inl IndexOutOfRange \<and>
   bitmap_New [] 1001 4 = Inr ([replicate 501 0], \<lparr>bm_i = 1001, bm_w = 4, bm_a = 0\<rparr>) \<and>
   bitmap_Set [replicate 501 0] \<lparr>bm_i = 1001, bm_w = 4, bm_a = 0\<rparr> 1001 0 True =
     Inr [(replicate 501 0)[500 := 16]] \<and>
   bitmap_Get [replicate 501 0] \<lparr>bm_i = 1001, bm_w = 4, bm_a = 0\<rparr> 1001 0 = Inr False \<and>
   bitmap_Get [replicate 1500 0] \<lparr>bm_i = 1000, bm_w = 12, bm_a = 0\<rparr> 0 (- 1) =
     Inl IndexOutOfRange \<and>
   newNTS [] 1000 12 =
     Inr ([replicate 1500 0], \<lparr>rows = 1000, columns = 12, bitmap = 0\<rparr>) \<and>
   Get [replicate 1500 0] \<lparr>rows = 1000, columns = 12, bitmap = 0\<rparr> 1001 0 =
     Inl ErrIllegalIndex \<and>
   Set [replicate 1500 0] \<lparr>rows = 1000, columns = 12, bitmap = 0\<rparr> 1001 0 True =
     Inl ErrIllegalIndex \<and>
   Get [replicate 1500 0] \<lparr>rows = 1000, columns = 12, bitmap = 0\<rparr> 1000 0 =
     Inl ErrIllegalIndex \<and>
   Set [replicate 1500 0] \<lparr>rows = 1000, columns = 12, bitmap = 0\<rparr> 1000 0 True =
     Inl ErrIllegalIndex \<and>
   Get [replicate 1500 0] \<lparr>rows = 1000, columns = 12, bitmap = 0\<rparr> 999 11 = Inr False \<and>
   Get [replicate 1500 0] \<lparr>rows = 1000, columns = 12, bitmap = 0\<rparr> 0 (- 1) =
     Inl IndexOutOfRange \<and>
   Set [replicate 1500 0] \<lparr>rows = 1000, columns = 12, bitmap = 0\<rparr> 0 (- 1) True =
     Inl IndexOutOfRange"
  by (simp add: bitmap_New_def bitmap_Set_def bitmap_Get_def newNTS_def make_bytes_def
      maxAlloc_def alloc_def calculateSize_def i64_def quo_def rem_def Get_def Set_def
      getPos_def index_def getBit_def setBit_def tA_def tB_def)

text \<open>
  C6 (negative indices). The claim is that a negative row or column is
  reported as \<open>ErrIllegalIndex\<close>. The checks of \<open>Get\<close> and \<open>Set\<close> have no lower
  bound: on a table of 2 rows and 4 columns, the cell \<open>(1, -1)\<close> is read and
  written as the cell \<open>(0, 3)\<close> with no error, and the cells \<open>(0, -1)\<close> and
  \<open>(-1, 0)\<close> panic with an index out of range.
\<close>

theorem C6_negative_index:
  "Get [[8]] \<lparr>rows = 2, columns = 4, bitmap = 0\<rparr> 0 3 = Inr True \<and>
   Get [[8]] \<lparr>rows = 2, columns = 4, bitmap = 0\<rparr> 1 (- 1) = Inr True \<and>
   Set [[0]] \<lparr>rows = 2, columns = 4, bitmap = 0\<rparr> 1 (- 1) True = Inr [[8]] \<and>
   Get [[0]] \<lparr>rows = 2, columns = 4, bitmap = 0\<rparr> 0 (- 1) = Inl IndexOutOfRange \<and>
   Set [[0]] \<lparr>rows = 2, columns = 4, bitmap = 0\<rparr> 0 (- 1) True = Inl IndexOutOfRange \<and>
   Get [[0]] \<lparr>rows = 2, columns = 4, bitmap = 0\<rparr> (- 1) 0 = Inl IndexOutOfRange \<and>
   Set [[0]] \<lparr>rows = 2, columns = 4, bitmap = 0\<rparr> (- 1) 0 True = Inl IndexOutOfRange"
  by (simp add: Get_def Set_def getPos_def i64_def quo_def rem_def index_def getBit_def
      setBit_def tA_def tB_def)

text \<open>
  C7 (raw access). \<open>Data(false)\<close> returns the slice of the table itself: a
  byte the caller stores through it is the byte of the table's buffer, and a
  following \<open>Get\<close> of a cell of that byte reads the stored byte. \<open>Data(true)\<close>
  returns a slice of a new array with the length and the content of the
  buffer: a byte the caller stores through it changes the copy only, the
  table's buffer (and so every slice returned by \<open>Data(false)\<close>) and the
  result of every following \<open>Get\<close> are unchanged, and a \<open>Set\<close> on the table
  leaves the copy unchanged.
\<close>

theorem C7_Data:
  assumes "bitmap t < length h"
  shows "Data h t False = (h, bitmap t) \<and>
    (\<forall>i x h2. store h (bitmap t) i x = Inr h2 \<longrightarrow>
       h2 ! bitmap t = (h ! bitmap t)[nat i := x] \<and>
       (\<forall>row column. table_inv h t \<and> valid t row column \<and> fst (getPos t row column) = i \<longrightarrow>
          Get h2 t row column = getBit x (snd (getPos t row column)))) \<and>
    (\<exists>h1 d. Data h t True = (h1, d) \<and> d \<noteq> bitmap t \<and>
       length (h1 ! d) = length (h ! bitmap t) \<and> h1 ! d = h ! bitmap t \<and>
       h1 ! bitmap t = h ! bitmap t \<and>
       (\<forall>i x h2. store h1 d i x = Inr h2 \<longrightarrow>
          h2 ! d = (h ! bitmap t)[nat i := x] \<and> h2 ! bitmap t = h ! bitmap t \<and>
          (\<forall>row column. Get h2 t row column = Get h t row column)) \<and>
       (\<forall>row column v h2. Set h1 t row column v = Inr h2 \<longrightarrow> h2 ! d = h ! bitmap t))"
proof (intro conjI)
  show "Data h t False = (h, bitmap t)"
    by (simp add: Data_def)
next
  show "\<forall>i x h2. store h (bitmap t) i x = Inr h2 \<longrightarrow>
       h2 ! bitmap t = (h ! bitmap t)[nat i := x] \<and>
       (\<forall>row column. table_inv h t \<and> valid t row column \<and> fst (getPos t row column) = i \<longrightarrow>
          Get h2 t row column = getBit x (snd (getPos t row column)))"
  proof (intro allI impI conjI)
    fix i x h2 row column
    assume s: "store h (bitmap t) i x = Inr h2"
    then have h2: "h2 = h[bitmap t := (h ! bitmap t)[nat i := x]]"
      by (simp add: store_result)
    then show buf: "h2 ! bitmap t = (h ! bitmap t)[nat i := x]"
      using assms by simp
    assume a: "table_inv h t \<and> valid t row column \<and> fst (getPos t row column) = i"
    then have inv: "table_inv h t" and v: "valid t row column"
      by simp_all
    let ?p = "linearPosition t row column"
    have pos: "getPos t row column = (?p div 8, ?p mod 8)"
      using inv v by (simp add: getPos_linear table_inv_def)
    then have i: "i = ?p div 8"
      using a by simp
    have p0: "0 \<le> ?p"
      using linear_bounds(1) [OF v] .
    have dm: "nat ?p div 8 = nat (?p div 8)" "nat ?p mod 8 = nat (?p mod 8)"
      using p0 by (simp_all add: nat_div_distrib nat_mod_distrib)
    have inv2: "table_inv h2 t"
      unfolding h2 using inv by (rule table_inv_update) simp
    have "nat (?p div 8) < length (h ! bitmap t)"
      using byte_index [OF inv v] by linarith
    then have "Get h2 t row column = Inr (bit x (nat (?p mod 8)))"
      by (simp add: Get_valid [OF inv2 v] buf bit_at_def dm i)
    then show "Get h2 t row column = getBit x (snd (getPos t row column))"
      by (simp add: pos getBit_bit)
  qed
next
  let ?h1 = "h @ [h ! bitmap t]"
  let ?d = "length h"
  have d: "Data h t True = (?h1, ?d)"
    by (rule Data_copy)
  have ne: "?d \<noteq> bitmap t"
    using assms by simp
  have same: "?h1 ! ?d = h ! bitmap t" "?h1 ! bitmap t = h ! bitmap t"
    using assms by (simp_all add: nth_append)
  have wr: "h2 ! ?d = (h ! bitmap t)[nat i := x] \<and> h2 ! bitmap t = h ! bitmap t \<and>
      (\<forall>row column. Get h2 t row column = Get h t row column)"
    if "store ?h1 ?d i x = Inr h2" for i x h2
  proof -
    have h2: "h2 = ?h1[?d := (?h1 ! ?d)[nat i := x]]"
      using store_result [OF that] by (rule conjunct1)
    have u: "h2 ! bitmap t = h ! bitmap t"
      using assms by (simp add: h2 nth_append)
    have w: "h2 ! ?d = (h ! bitmap t)[nat i := x]"
      by (simp add: h2)
    show ?thesis
      using u w Get_heap_cong [OF u] by (intro conjI allI)
  qed
  have st: "h2 ! ?d = h ! bitmap t" if "Set ?h1 t row column v = Inr h2" for row column v h2
    using Set_other [OF that ne] by simp
  show "\<exists>h1 d. Data h t True = (h1, d) \<and> d \<noteq> bitmap t \<and>
       length (h1 ! d) = length (h ! bitmap t) \<and> h1 ! d = h ! bitmap t \<and>
       h1 ! bitmap t = h ! bitmap t \<and>
       (\<forall>i x h2. store h1 d i x = Inr h2 \<longrightarrow>
          h2 ! d = (h ! bitmap t)[nat i := x] \<and> h2 ! bitmap t = h ! bitmap t \<and>
          (\<forall>row column. Get h2 t row column = Get h t row column)) \<and>
       (\<forall>row column v h2. Set h1 t row column v = Inr h2 \<longrightarrow> h2 ! d = h ! bitmap t)"
  proof (intro exI [of _ ?h1] exI [of _ ?d] conjI allI impI)
    show "Data h t True = (?h1, ?d)" by (rule d)
    show "?d \<noteq> bitmap t" by (rule ne)
    show "length (?h1 ! ?d) = length (h ! bitmap t)" by (simp only: same)
    show "?h1 ! ?d = h ! bitmap t" by (rule same)
    show "?h1 ! bitmap t = h ! bitmap t" by (rule same)
  next
    fix i x h2
    assume s: "store ?h1 ?d i x = Inr h2"
    show "h2 ! ?d = (h ! bitmap t)[nat i := x]" and "h2 ! bitmap t = h ! bitmap t"
      using wr [OF s] by (rule conjunct1, rule conjunct2 [THEN conjunct1])
    fix row column
    show "Get h2 t row column = Get h t row column"
      using wr [OF s] by (simp only:)
  next
    fix row column v h2
    assume "Set ?h1 t row column v = Inr h2"
    then show "h2 ! ?d = h ! bitmap t" by (rule st)
  qed
qed

theorem C7_Data_witness:
  "bitmap \<lparr>rows = 10, columns = 5, bitmap = 0\<rparr> < length [[0, 0, 0, 0, 0, 0, 0 :: byte]] \<and>
   Data [[0, 0, 0, 0, 0, 0, 0]] \<lparr>rows = 10, columns = 5, bitmap = 0\<rparr> False =
     ([[0, 0, 0, 0, 0, 0, 0]], 0) \<and>
   store [[0, 0, 0, 0, 0, 0, 0]] 0 1 123 = Inr [[0, 123, 0, 0, 0, 0, 0]] \<and>
   Get [[0, 123, 0, 0, 0, 0, 0]] \<lparr>rows = 10, columns = 5, bitmap = 0\<rparr> 1 3 = Inr True \<and>
   Data [[0, 123, 0, 0, 0, 0, 0]] \<lparr>rows = 10, columns = 5, bitmap = 0\<rparr> True =
     ([[0, 123, 0, 0, 0, 0, 0], [0, 123, 0, 0, 0, 0, 0]], 1) \<and>
   store [[0, 123, 0, 0, 0, 0, 0], [0, 123, 0, 0, 0, 0, 0]] 1 1 111 =
     Inr [[0, 123, 0, 0, 0, 0, 0], [0, 111, 0, 0, 0, 0, 0]] \<and>
   Get [[0, 123, 0, 0, 0, 0, 0], [0, 111, 0, 0, 0, 0, 0]] \<lparr>rows = 10, columns = 5, bitmap = 0\<rparr> 1 3 =
     Inr True"
proof -
  let ?t = "\<lparr>rows = 10, columns = 5, bitmap = 0\<rparr>"
  let ?h = "[[0, 0, 0, 0, 0, 0, 0 :: byte]]"
  let ?h2 = "[[0, 123, 0, 0, 0, 0, 0 :: byte]]"
  let ?h3 = "[[0, 123, 0, 0, 0, 0, 0 :: byte], [0, 123, 0, 0, 0, 0, 0]]"
  let ?h4 = "[[0, 123, 0, 0, 0, 0, 0 :: byte], [0, 111, 0, 0, 0, 0, 0]]"
  have a: "bitmap ?t < length ?h" and a2: "bitmap ?t < length ?h2"
    by simp_all
  have s1: "store ?h 0 1 123 = Inr ?h2" and s2: "store ?h3 1 1 111 = Inr ?h4"
    by (simp_all add: store_def)
  have i: "table_inv ?h ?t" and v: "valid ?t 1 3"
    by (simp_all add: table_inv_def valid_def Rows_def Columns_def)
  have p: "getPos ?t 1 3 = (1, 0)"
    by (simp add: getPos_def i64_def quo_def rem_def)
  have g: "getBit 123 0 = Inr True"
    by (simp add: getBit_def index_def tA_def)
  have d1: "Data ?h ?t False = (?h, 0)" and d2: "Data ?h2 ?t True = (?h3, 1)"
    by (simp_all add: Data_def alloc_def copy_def)
  have g2: "Get ?h2 ?t 1 3 = Inr True"
    using C7_Data [OF a] s1 i v p g by fastforce
  have "Get ?h4 ?t 1 3 = Get ?h2 ?t 1 3"
    using C7_Data [OF a2] d2 s2 by fastforce
  then show ?thesis
    using a s1 s2 d1 d2 g2 by simp
qed

text \<open>
  C8 (the two variants). The claim is that every run of calls gives the same
  replies and the same buffer on the thread-safe table as on the plain one.
  \<open>ts.Set\<close> does not defer its \<open>Unlock\<close>: on the table of 2 rows and 4 columns,
  \<open>Set(0, -1, true)\<close> panics in both variants and leaves the mutex of the
  thread-safe one held, and the following \<open>Set(0, 0, true)\<close> returns on the
  plain table and never returns on the thread-safe one. A panic inside \<open>Get\<close>,
  which takes no lock, does no such harm.
\<close>

theorem C8_lock_left_held:
  "newNTS [] 2 4 = Inr ([[0]], \<lparr>rows = 2, columns = 4, bitmap = 0\<rparr>) \<and>
   newTS [] [] 2 4 =
     Inr ([[0]], [False], \<lparr>mu = 0, b = \<lparr>rows = 2, columns = 4, bitmap = 0\<rparr>\<rparr>) \<and>
   run_nts [[0]] \<lparr>rows = 2, columns = 4, bitmap = 0\<rparr>
     [Call_Set 0 (- 1) True, Call_Set 0 0 True, Call_Get 0 0] =
     ([Error_reply IndexOutOfRange, Nil_reply, Bool_reply True], [[1]]) \<and>
   run_ts [[0]] [False] \<lparr>mu = 0, b = \<lparr>rows = 2, columns = 4, bitmap = 0\<rparr>\<rparr>
     [Call_Set 0 (- 1) True] = Some ([Error_reply IndexOutOfRange], [[0]], [True]) \<and>
   run_ts [[0]] [False] \<lparr>mu = 0, b = \<lparr>rows = 2, columns = 4, bitmap = 0\<rparr>\<rparr>
     [Call_Set 0 (- 1) True, Call_Set 0 0 True, Call_Get 0 0] = None \<and>
   run_ts [[0]] [False] \<lparr>mu = 0, b = \<lparr>rows = 2, columns = 4, bitmap = 0\<rparr>\<rparr>
     [Call_Get 0 (- 1), Call_Set 0 0 True, Call_Get 0 0] =
     Some ([Error_reply IndexOutOfRange, Nil_reply, Bool_reply True], [[1]], [False])"
  by (simp add: newNTS_def newTS_def make_bytes_def maxAlloc_def alloc_def calculateSize_def
      i64_def quo_def rem_def ts_Set_def ts_Get_def Lock_def Unlock_def Set_def Get_def
      getPos_def index_def setBit_def getBit_def tA_def tB_def panics_def)

text \<open>
  C9 (accessors), as amended. On a table built by \<open>newNTS(rowCount,
  columnCount)\<close>, \<open>Rows()\<close> returns \<open>rowCount\<close> for every Go \<open>int\<close>, and
  \<open>Columns()\<close> returns \<open>columnCount mod 2 ^ 16\<close>, which is \<open>columnCount\<close> when
  \<open>0 \<le> columnCount < 2 ^ 16\<close>. Both accessors are total functions of the table
  alone.
\<close>

theorem C9_accessors:
  assumes "newNTS h rs cs = Inr (h', t)" and "is_int rs"
  shows "Rows t = rs \<and> Columns t = cs mod 2 ^ 16 \<and> (0 \<le> cs \<and> cs < 2 ^ 16 \<longrightarrow> Columns t = cs)"
  using assms(2) by (simp add: newNTS_table(2) [OF assms(1)] Rows_new Columns_new i64_id)

theorem C9_accessors_witness:
  "newNTS [] 10 5 = Inr ([replicate 7 0], \<lparr>rows = 10, columns = 5, bitmap = 0\<rparr>) \<and>
   is_int 10 \<and> (0::int) \<le> 5 \<and> (5::int) < 2 ^ 16 \<and>
   Rows \<lparr>rows = 10, columns = 5, bitmap = 0\<rparr> = 10 \<and>
   Columns \<lparr>rows = 10, columns = 5, bitmap = 0\<rparr> = 5"
proof -
  have n: "newNTS [] 10 5 = Inr ([replicate 7 0], \<lparr>rows = 10, columns = 5, bitmap = 0\<rparr>)"
    by (simp add: newNTS_def make_bytes_def maxAlloc_def alloc_def calculateSize_def i64_def quo_def rem_def)
  have i: "is_int 10"
    by (simp add: is_int_def)
  show ?thesis
    using C9_accessors [OF n i] n i by simp
qed

theorem C9_counterexample:
  "newNTS [] 1 65536 = Inr ([replicate 8192 0], \<lparr>rows = 1, columns = 0, bitmap = 0\<rparr>) \<and>
   Rows \<lparr>rows = 1, columns = 0, bitmap = 0\<rparr> = 1 \<and>
   Columns \<lparr>rows = 1, columns = 0, bitmap = 0\<rparr> = 0"
  by (simp add: newNTS_def make_bytes_def maxAlloc_def alloc_def calculateSize_def i64_def quo_def rem_def
      Rows_def Columns_def)

text \<open>
  C10 (buffer access inside the bounds), as amended. For every table built by
  \<open>newNTS\<close> from \<open>rowCount \<ge> 0\<close> and \<open>columnCount \<ge> 0\<close> whose product does not
  overflow (it is below \<open>2 ^ 63\<close>), in every state the program reaches from
  it, and for every cell with \<open>0 \<le> row < Rows()\<close> and \<open>0 \<le> column < Columns()\<close>:
  the byte index of \<open>getPos\<close> is \<open>(row * columnCount + column) / 8\<close>, it is not
  negative and it is strictly below the length of the buffer, which is
  \<open>calculateSize(rowCount, columnCount) = ceil(rowCount * columnCount / 8)\<close>:
  \<open>Get\<close> and \<open>Set\<close> do not panic.
\<close>

theorem C10_in_bounds:
  assumes "newNTS h0 rs cs = Inr (h1, t)" and "0 \<le> rs" and "0 \<le> cs" and "rs * cs < 2 ^ 63"
    and "reach h1 t h" and "valid t row column"
  shows "fst (getPos t row column) = (row * Columns t + column) div 8 \<and>
    0 \<le> fst (getPos t row column) \<and>
    fst (getPos t row column) < \<lceil>real_of_int (Rows t * Columns t) / 8\<rceil> \<and>
    \<lceil>real_of_int (Rows t * Columns t) / 8\<rceil> \<le> int (length (h ! bitmap t)) \<and>
    int (length (h ! bitmap t)) = calculateSize rs cs \<and>
    calculateSize rs cs = \<lceil>real_of_int (rs * cs) / 8\<rceil> \<and>
    fst (getPos t row column) < int (length (h ! bitmap t)) \<and>
    (\<exists>x. Get h t row column = Inr x) \<and>
    (\<exists>h'. Set h t row column v = Inr h')"
proof -
  let ?p = "linearPosition t row column"
  let ?n = "Rows t * Columns t"
  have i: "table_inv h t"
    by (rule built_inv [OF assms(1-5)])
  have p: "0 \<le> ?p" "?p < ?n"
    using linear_bounds [OF assms(6)] by simp_all
  have n: "0 \<le> ?n" "?n < 2 ^ 63" "?n \<le> 8 * int (length (h ! bitmap t))"
    using p i by (simp_all add: table_inv_def)
  have m: "0 \<le> rs * cs"
    using assms(2,3) by simp
  have g: "fst (getPos t row column) = ?p div 8"
    using getPos_linear [OF assms(6) n(2)] by simp
  have "?p < 8 * calculateSize (Rows t) (Columns t)"
    using p(2) calculateSize_holds(1) [OF n(1,2)] by simp
  then have lt: "?p div 8 < \<lceil>real_of_int ?n / 8\<rceil>"
    by (simp add: calculateSize_ceiling [OF n(1,2)])
  have "calculateSize (Rows t) (Columns t) \<le> int (length (h ! bitmap t))"
    by (simp only: calculateSize_exact [OF n(1,2)] div_8_fit [OF n(3)])
  then have le: "\<lceil>real_of_int ?n / 8\<rceil> \<le> int (length (h ! bitmap t))"
    by (simp add: calculateSize_ceiling [OF n(1,2)])
  have "bitmap t < length h1"
    by (simp add: newNTS_table(1,2) [OF assms(1)])
  then have "length (h ! bitmap t) = length (h1 ! bitmap t)"
    using reach_buffer [OF assms(5)] by simp
  then have len: "int (length (h ! bitmap t)) = calculateSize rs cs"
    using newNTS_table(3) [OF assms(1)] by (simp add: newNTS_table(1,2) [OF assms(1)])
  have "0 \<le> ?p div 8"
    using p(1) by simp
  then show ?thesis
    using lt le len calculateSize_ceiling [OF m assms(4)]
    by (simp add: g Get_valid [OF i assms(6)] Set_valid [OF i assms(6)] linearPosition_def)
qed

theorem C10_in_bounds_witness:
  "newNTS [] 10 5 = Inr ([replicate 7 0], \<lparr>rows = 10, columns = 5, bitmap = 0\<rparr>) \<and>
   (0::int) \<le> 10 \<and> (0::int) \<le> 5 \<and> (10::int) * 5 < 2 ^ 63 \<and>
   reach [replicate 7 0] \<lparr>rows = 10, columns = 5, bitmap = 0\<rparr> [replicate 7 0] \<and>
   valid \<lparr>rows = 10, columns = 5, bitmap = 0\<rparr> 9 4 \<and>
   fst (getPos \<lparr>rows = 10, columns = 5, bitmap = 0\<rparr> 9 4) = 6 \<and>
   calculateSize 10 5 = 7 \<and>
   (\<exists>x. Get [replicate 7 0] \<lparr>rows = 10, columns = 5, bitmap = 0\<rparr> 9 4 = Inr x) \<and>
   (\<exists>h'. Set [replicate 7 0] \<lparr>rows = 10, columns = 5, bitmap = 0\<rparr> 9 4 True = Inr h')"
proof -
  let ?t = "\<lparr>rows = 10, columns = 5, bitmap = 0\<rparr>"
  have n: "newNTS [] 10 5 = Inr ([replicate 7 0], ?t)"
    by (simp add: newNTS_def make_bytes_def maxAlloc_def alloc_def calculateSize_def i64_def
        quo_def rem_def)
  have r: "reach [replicate 7 0] ?t [replicate 7 0]"
    by (rule reach.fresh)
  have v: "valid ?t 9 4" and c: "Columns ?t = 5"
    by (simp_all add: valid_def Rows_def Columns_def)
  show ?thesis
    using C10_in_bounds [OF n _ _ _ r v, of True] n r v by (simp add: c)
qed

theorem C10_counterexample:
  "newNTS [] (2 ^ 61) 8 = Inr ([[]], \<lparr>rows = 2 ^ 61, columns = 8, bitmap = 0\<rparr>) \<and>
   0 < Rows \<lparr>rows = 2 ^ 61, columns = 8, bitmap = 0\<rparr> \<and>
   0 < Columns \<lparr>rows = 2 ^ 61, columns = 8, bitmap = 0\<rparr> \<and>
   valid \<lparr>rows = 2 ^ 61, columns = 8, bitmap = 0\<rparr> 0 0 \<and>
   fst (getPos \<lparr>rows = 2 ^ 61, columns = 8, bitmap = 0\<rparr> 0 0) = 0 \<and>
   length ([[]] ! bitmap \<lparr>rows = 2 ^ 61, columns = 8, bitmap = 0\<rparr>) = 0 \<and>
   Get [[]] \<lparr>rows = 2 ^ 61, columns = 8, bitmap = 0\<rparr> 0 0 = Inl IndexOutOfRange \<and>
   Set [[]] \<lparr>rows = 2 ^ 61, columns = 8, bitmap = 0\<rparr> 0 0 False = Inl IndexOutOfRange"
  by (simp add: newNTS_def make_bytes_def maxAlloc_def alloc_def calculateSize_def i64_def
      quo_def rem_def valid_def Rows_def Columns_def Get_def Set_def getPos_def index_def)

end
